theory Spec2Isabelle
  imports Complex_Main
begin

section \<open>DataNexus: the session, the table and its transformations\<close>

text \<open>
  The application (\<^verbatim>\<open>src/app.py\<close>) is one Streamlit script over a pandas DataFrame kept
  in \<^verbatim>\<open>st.session_state\<close>.  The embedding has three layers:
  \<^item> the table: a DataFrame as row labels (its index) and an ordered list of named,
    typed columns;
  \<^item> the DataFrame calls the script makes (\<^verbatim>\<open>df[col]\<close>, \<^verbatim>\<open>drop\<close>, \<^verbatim>\<open>dropna\<close>,
    \<^verbatim>\<open>fillna\<close>, \<^verbatim>\<open>mean\<close>, \<^verbatim>\<open>is_numeric_dtype\<close>, \<^verbatim>\<open>select_dtypes\<close>, \<^verbatim>\<open>empty\<close>,
    comparison and boolean-mask selection), with the exceptions they raise as values;
  \<^item> the button handlers of the script, as functions from the session to an outcome and
    the session afterwards.

  Numbers: a float64 cell is a rational or NaN (\<open>None\<close>); the rounding of float64
  arithmetic and the infinities are outside the embedding.  An int64 cell is an integer;
  where the script compares an int64 column with a float, the conversion of the integer
  to the nearest float64 is part of the embedding.
\<close>

subsection \<open>The table\<close>

datatype obj = OStr string | OInt int | OFloat rat | ONaN

datatype series =
    Int64 "int list"
  | Float64 "rat option list"
  | Bool "bool list"
  | Object "obj list"

record dataframe =
  index :: "nat list"
  columns :: "(string \<times> series) list"

record session =
  df :: "dataframe option"
  file_name :: "string option"

datatype exn = KeyError string | TypeError

fun slen :: "series \<Rightarrow> nat" where
  "slen (Int64 xs) = length xs"
| "slen (Float64 xs) = length xs"
| "slen (Bool xs) = length xs"
| "slen (Object xs) = length xs"

definition nrows :: "dataframe \<Rightarrow> nat" where
  "nrows d = length (index d)"

definition column_names :: "dataframe \<Rightarrow> string list" where
  "column_names d = map fst (columns d)"

text \<open>The invariant of a DataFrame: unique column names (the readers rename duplicate
  headers), unique row labels, and every column as long as the index.\<close>

definition wf_df :: "dataframe \<Rightarrow> bool" where
  "wf_df d \<longleftrightarrow> distinct (column_names d) \<and> distinct (index d) \<and>
     list_all (\<lambda>c. slen (snd c) = nrows d) (columns d)"

subsection \<open>Cells and rows\<close>

datatype scalar = SInt int | SFloat rat | SBool bool | SStr string | NaN

fun cells :: "series \<Rightarrow> scalar list" where
  "cells (Int64 xs) = map SInt xs"
| "cells (Float64 xs) = map (\<lambda>v. case v of None \<Rightarrow> NaN | Some r \<Rightarrow> SFloat r) xs"
| "cells (Bool xs) = map SBool xs"
| "cells (Object xs) = map (\<lambda>v. case v of OStr s \<Rightarrow> SStr s | OInt i \<Rightarrow> SInt i
                                    | OFloat r \<Rightarrow> SFloat r | ONaN \<Rightarrow> NaN) xs"

type_synonym row = "nat \<times> (string \<times> scalar) list"

fun rows_of :: "nat list \<Rightarrow> (string \<times> 'a list) list \<Rightarrow> (nat \<times> (string \<times> 'a) list) list" where
  "rows_of [] cs = []"
| "rows_of (l # ls) cs =
     (l, map (\<lambda>c. (fst c, hd (snd c))) cs) # rows_of ls (map (\<lambda>c. (fst c, tl (snd c))) cs)"

definition rows :: "dataframe \<Rightarrow> row list" where
  "rows d = rows_of (index d) (map (\<lambda>c. (fst c, cells (snd c))) (columns d))"

subsection \<open>The DataFrame calls\<close>

text \<open>\<^verbatim>\<open>df[col]\<close>: the column, or KeyError.\<close>

definition getitem :: "dataframe \<Rightarrow> string \<Rightarrow> exn + series" where
  "getitem d col = (case map_of (columns d) col of
                      None \<Rightarrow> Inl (KeyError col)
                    | Some s \<Rightarrow> Inr s)"

text \<open>\<^verbatim>\<open>df[col] = s\<close>: an existing column is replaced where it stands, a new one is
  appended.\<close>

fun setcol :: "(string \<times> series) list \<Rightarrow> string \<Rightarrow> series \<Rightarrow> (string \<times> series) list" where
  "setcol [] col s = [(col, s)]"
| "setcol (c # cs) col s = (if fst c = col then (col, s) # cs else c # setcol cs col s)"

definition setitem :: "dataframe \<Rightarrow> string \<Rightarrow> series \<Rightarrow> dataframe" where
  "setitem d col s = d\<lparr>columns := setcol (columns d) col s\<rparr>"

text \<open>\<^verbatim>\<open>df.drop(columns=names)\<close> with the default \<^verbatim>\<open>errors='raise'\<close>: a label that is
  not a column raises KeyError; otherwise the named columns go and the index stays.\<close>

definition drop_columns :: "dataframe \<Rightarrow> string list \<Rightarrow> exn + dataframe" where
  "drop_columns d names =
     (case filter (\<lambda>n. n \<notin> set (column_names d)) names of
        [] \<Rightarrow> Inr (d\<lparr>columns := filter (\<lambda>c. fst c \<notin> set names) (columns d)\<rparr>)
      | n # _ \<Rightarrow> Inl (KeyError n))"

text \<open>\<^verbatim>\<open>pd.api.types.is_numeric_dtype\<close>: integers, floats and booleans.\<close>

fun is_numeric_dtype :: "series \<Rightarrow> bool" where
  "is_numeric_dtype (Int64 xs) = True"
| "is_numeric_dtype (Float64 xs) = True"
| "is_numeric_dtype (Bool xs) = True"
| "is_numeric_dtype (Object xs) = False"

text \<open>Selection of rows by a boolean mask, position by position.\<close>

definition take_rows :: "bool list \<Rightarrow> 'a list \<Rightarrow> 'a list" where
  "take_rows m xs = map fst (filter snd (zip xs m))"

fun series_take :: "bool list \<Rightarrow> series \<Rightarrow> series" where
  "series_take m (Int64 xs) = Int64 (take_rows m xs)"
| "series_take m (Float64 xs) = Float64 (take_rows m xs)"
| "series_take m (Bool xs) = Bool (take_rows m xs)"
| "series_take m (Object xs) = Object (take_rows m xs)"

definition df_take :: "bool list \<Rightarrow> dataframe \<Rightarrow> dataframe" where
  "df_take m d = \<lparr>index = take_rows m (index d),
                  columns = map (\<lambda>c. (fst c, series_take m (snd c))) (columns d)\<rparr>"

text \<open>\<^verbatim>\<open>s >= x\<close> and \<^verbatim>\<open>s <= x\<close> for a float \<open>x\<close>, element by element, on the float64
  values of the column.  A comparison with NaN is False; comparing text with a number
  raises TypeError.\<close>

definition bool_num :: "bool \<Rightarrow> rat" where
  "bool_num b = (if b then 1 else 0)"

text \<open>An int64 column compared with a float is first converted to float64: the integer
  is rounded to 53 significant bits, to the nearest, a tie going to the even significand.
  Below \<open>2 ^ 53\<close> in magnitude nothing is lost.\<close>

function significand_shift :: "nat \<Rightarrow> nat" where
  "significand_shift n = (if n < 2 ^ 53 then 0 else Suc (significand_shift (n div 2)))"
  by pat_completeness auto
termination
  by (relation "measure (\<lambda>n. n)") auto

declare significand_shift.simps [simp del]

definition round_to_float64 :: "nat \<Rightarrow> nat" where
  "round_to_float64 n =
     (let e = significand_shift n; q = n div 2 ^ e; r = n mod 2 ^ e
      in if 2 ^ e < 2 * r \<or> (2 * r = 2 ^ e \<and> odd q) then (q + 1) * 2 ^ e else q * 2 ^ e)"

definition float64_of_int :: "int \<Rightarrow> rat" where
  "float64_of_int i = (if i < 0 then - of_nat (round_to_float64 (nat (- i)))
                       else of_nat (round_to_float64 (nat i)))"

fun series_ge :: "series \<Rightarrow> rat \<Rightarrow> exn + bool list" where
  "series_ge (Int64 xs) x = Inr (map (\<lambda>v. x \<le> float64_of_int v) xs)"
| "series_ge (Float64 xs) x = Inr (map (\<lambda>v. case v of None \<Rightarrow> False | Some r \<Rightarrow> x \<le> r) xs)"
| "series_ge (Bool xs) x = Inr (map (\<lambda>v. x \<le> bool_num v) xs)"
| "series_ge (Object xs) x = Inl TypeError"

fun series_le :: "series \<Rightarrow> rat \<Rightarrow> exn + bool list" where
  "series_le (Int64 xs) x = Inr (map (\<lambda>v. float64_of_int v \<le> x) xs)"
| "series_le (Float64 xs) x = Inr (map (\<lambda>v. case v of None \<Rightarrow> False | Some r \<Rightarrow> r \<le> x) xs)"
| "series_le (Bool xs) x = Inr (map (\<lambda>v. bool_num v \<le> x) xs)"
| "series_le (Object xs) x = Inl TypeError"

text \<open>\<^verbatim>\<open>a & b\<close> on two masks of one column.\<close>

definition mask_and :: "bool list \<Rightarrow> bool list \<Rightarrow> bool list" where
  "mask_and a b = map (\<lambda>p. fst p \<and> snd p) (zip a b)"

text \<open>\<^verbatim>\<open>s.notna()\<close> and \<^verbatim>\<open>df.dropna(subset=[col])\<close>.\<close>

definition notna :: "series \<Rightarrow> bool list" where
  "notna s = map (\<lambda>v. v \<noteq> NaN) (cells s)"

definition dropna :: "dataframe \<Rightarrow> string \<Rightarrow> exn + dataframe" where
  "dropna d col = (case getitem d col of
                     Inl e \<Rightarrow> Inl e
                   | Inr s \<Rightarrow> Inr (df_take (notna s) d))"

text \<open>\<^verbatim>\<open>s.fillna(0)\<close>: int64 and bool columns hold no missing value and come back as
  they are; a float column takes 0.0, an object column the integer 0.\<close>

fun fillna_zero :: "series \<Rightarrow> series" where
  "fillna_zero (Int64 xs) = Int64 xs"
| "fillna_zero (Float64 xs) = Float64 (map (\<lambda>v. case v of None \<Rightarrow> Some 0 | Some r \<Rightarrow> Some r) xs)"
| "fillna_zero (Bool xs) = Bool xs"
| "fillna_zero (Object xs) = Object (map (\<lambda>v. case v of ONaN \<Rightarrow> OInt 0 | w \<Rightarrow> w) xs)"

text \<open>\<^verbatim>\<open>s.fillna(x)\<close> for a float \<open>x\<close>, which is NaN (\<open>None\<close>) when it is the mean of
  no value: filling with NaN changes nothing.\<close>

fun fillna :: "series \<Rightarrow> rat option \<Rightarrow> series" where
  "fillna (Int64 xs) x = Int64 xs"
| "fillna (Float64 xs) x = Float64 (map (\<lambda>v. case v of None \<Rightarrow> x | Some r \<Rightarrow> Some r) xs)"
| "fillna (Bool xs) x = Bool xs"
| "fillna (Object xs) x =
     Object (map (\<lambda>v. case v of ONaN \<Rightarrow> (case x of None \<Rightarrow> ONaN | Some r \<Rightarrow> OFloat r) | w \<Rightarrow> w) xs)"

text \<open>\<^verbatim>\<open>s.mean()\<close>: the sum of the values that are not missing over their number, NaN
  when there is none.  Text has no mean (TypeError); the script asks for the mean of
  numeric columns only.\<close>

definition average :: "rat list \<Rightarrow> rat option" where
  "average vs = (if vs = [] then None else Some (sum_list vs / of_nat (length vs)))"

definition present :: "'a option list \<Rightarrow> 'a list" where
  "present xs = concat (map (\<lambda>v. case v of None \<Rightarrow> [] | Some r \<Rightarrow> [r]) xs)"

fun mean :: "series \<Rightarrow> exn + rat option" where
  "mean (Int64 xs) = Inr (average (map of_int xs))"
| "mean (Float64 xs) = Inr (average (present xs))"
| "mean (Bool xs) = Inr (average (map bool_num xs))"
| "mean (Object xs) = Inl TypeError"




subsection \<open>The script: what it shows and what it does to the session\<close>

datatype notice =
    ErrorLoadingFile string
  | FileLoaded
  | NoDataLoaded
  | NotEnoughNumericColumns
  | ColumnsRemoved
  | CannotCalculateMean
  | TransformationApplied
  | FilterApplied

text \<open>How a button handler ends: \<^verbatim>\<open>st.success\<close> and \<^verbatim>\<open>st.rerun()\<close>; \<^verbatim>\<open>st.error\<close> and
  \<^verbatim>\<open>st.stop()\<close>; the page's \<^verbatim>\<open>st.warning\<close> when no table is loaded; an exception
  nobody catches, which ends the script run; or no button at all (the filter button is
  drawn for numeric columns only).\<close>

datatype outcome =
    Rerun notice
  | Stopped notice
  | Warned notice
  | Raised exn
  | NoButton

datatype imputation = DropRows | FillZero | FillMean

definition execute_drop :: "session \<Rightarrow> string list \<Rightarrow> outcome \<times> session" where
  "execute_drop s cols_to_drop =
     (case df s of
        None \<Rightarrow> (Warned NoDataLoaded, s)
      | Some d \<Rightarrow>
          (case drop_columns d cols_to_drop of
             Inl e \<Rightarrow> (Raised e, s)
           | Inr d' \<Rightarrow> (Rerun ColumnsRemoved, s\<lparr>df := Some d'\<rparr>)))"

definition apply_transformation :: "session \<Rightarrow> string \<Rightarrow> imputation \<Rightarrow> outcome \<times> session" where
  "apply_transformation s col_option m =
     (case df s of
        None \<Rightarrow> (Warned NoDataLoaded, s)
      | Some d \<Rightarrow>
          (case m of
             DropRows \<Rightarrow>
               (case dropna d col_option of
                  Inl e \<Rightarrow> (Raised e, s)
                | Inr d' \<Rightarrow> (Rerun TransformationApplied, s\<lparr>df := Some d'\<rparr>))
           | FillZero \<Rightarrow>
               (case getitem d col_option of
                  Inl e \<Rightarrow> (Raised e, s)
                | Inr c \<Rightarrow> (Rerun TransformationApplied,
                            s\<lparr>df := Some (setitem d col_option (fillna_zero c))\<rparr>))
           | FillMean \<Rightarrow>
               (case getitem d col_option of
                  Inl e \<Rightarrow> (Raised e, s)
                | Inr c \<Rightarrow>
                    if is_numeric_dtype c then
                      (case mean c of
                         Inl e \<Rightarrow> (Raised e, s)
                       | Inr x \<Rightarrow> (Rerun TransformationApplied,
                                   s\<lparr>df := Some (setitem d col_option (fillna c x))\<rparr>))
                    else (Stopped CannotCalculateMean, s))))"

text \<open>The filter: \<open>low\<close> and \<open>high\<close> are the two ends the slider returned.\<close>

definition apply_filter :: "session \<Rightarrow> string \<Rightarrow> rat \<Rightarrow> rat \<Rightarrow> outcome \<times> session" where
  "apply_filter s filter_col low high =
     (case df s of
        None \<Rightarrow> (Warned NoDataLoaded, s)
      | Some d \<Rightarrow>
          (case getitem d filter_col of
             Inl e \<Rightarrow> (Raised e, s)
           | Inr c \<Rightarrow>
               if is_numeric_dtype c then
                 (case series_ge c low of
                    Inl e \<Rightarrow> (Raised e, s)
                  | Inr a \<Rightarrow>
                      (case series_le c high of
                         Inl e \<Rightarrow> (Raised e, s)
                       | Inr b \<Rightarrow> (Rerun FilterApplied, s\<lparr>df := Some (df_take (mask_and a b) d)\<rparr>)))
               else (NoButton, s)))"



text \<open>\<^verbatim>\<open>load_data\<close>.  What \<^verbatim>\<open>pd.read_csv\<close> and \<^verbatim>\<open>pd.read_excel\<close> make of the uploaded
  bytes is given: the table, or the text of the exception raised.  The result is the
  returned value and what \<^verbatim>\<open>st.error\<close> showed.\<close>

definition endswith :: "string \<Rightarrow> string \<Rightarrow> bool" where
  "endswith s suffix \<longleftrightarrow>
     length suffix \<le> length s \<and> drop (length s - length suffix) s = suffix"

definition load_data ::
  "string \<Rightarrow> string + dataframe \<Rightarrow> string + dataframe \<Rightarrow> dataframe option \<times> notice list" where
  "load_data name read_csv read_excel =
     (if endswith name ''.csv'' then
        (case read_csv of Inr d \<Rightarrow> (Some d, []) | Inl e \<Rightarrow> (None, [ErrorLoadingFile e]))
      else if endswith name ''.xlsx'' then
        (case read_excel of Inr d \<Rightarrow> (Some d, []) | Inl e \<Rightarrow> (None, [ErrorLoadingFile e]))
      else (None, []))"

text \<open>The ingestion page once a file is uploaded: what it shows, and the session.\<close>

definition ingestion ::
  "session \<Rightarrow> string \<Rightarrow> string + dataframe \<Rightarrow> string + dataframe \<Rightarrow> notice list \<times> session" where
  "ingestion s name read_csv read_excel =
     (case load_data name read_csv read_excel of
        (Some d, shown) \<Rightarrow> (shown @ [FileLoaded], s\<lparr>df := Some d, file_name := Some name\<rparr>)
      | (None, shown) \<Rightarrow> (shown, s))"

subsection \<open>The export\<close>

text \<open>
  \<^verbatim>\<open>convert_df\<close> is \<^verbatim>\<open>df.to_csv(index=False).encode('utf-8')\<close>.  A Python string is
  taken as the bytes of its UTF-8 encoding, so that the encoding step is the identity on
  the text \<^verbatim>\<open>to_csv\<close> returns.  Two things the host decides are parameters: how a float
  is written (\<^verbatim>\<open>repr\<close>), and whether \<^verbatim>\<open>csv.writer\<close> puts a field in quotes for a
  carriage return in it (recent CPython does, older does not).  The line terminator is
  \<^verbatim>\<open>os.linesep\<close> of a POSIX host, a line feed.
\<close>

record runtime =
  float_repr :: "rat \<Rightarrow> string"
  quotes_cr :: bool

text \<open>\<^verbatim>\<open>str\<close> of an integer.\<close>

definition digit :: "nat \<Rightarrow> char" where
  "digit n = ''0123456789'' ! (n mod 10)"

function str_nat :: "nat \<Rightarrow> string" where
  "str_nat n = (if n < 10 then [digit n] else str_nat (n div 10) @ [digit n])"
  by pat_completeness auto
termination
  by (relation "measure (\<lambda>n. n)") auto

declare str_nat.simps [simp del]

definition str_int :: "int \<Rightarrow> string" where
  "str_int i = (if i < 0 then CHR ''-'' # str_nat (nat (- i)) else str_nat (nat i))"

text \<open>The text of a cell: \<^verbatim>\<open>na_rep\<close> is the empty string.\<close>

fun cell_text :: "runtime \<Rightarrow> scalar \<Rightarrow> string" where
  "cell_text rt (SInt i) = str_int i"
| "cell_text rt (SFloat r) = float_repr rt r"
| "cell_text rt (SBool b) = (if b then ''True'' else ''False'')"
| "cell_text rt (SStr t) = t"
| "cell_text rt NaN = []"

text \<open>The records \<^verbatim>\<open>to_csv\<close> hands to the writer: the header, then one record for each
  row, taken from the columns once their cells are formatted.  With \<^verbatim>\<open>index=True\<close> each
  record starts with one more field, the row label (an empty field in the header).\<close>

definition csv_rows :: "runtime \<Rightarrow> bool \<Rightarrow> dataframe \<Rightarrow> string list list" where
  "csv_rows rt with_index d =
     (let cols = map (\<lambda>c. (fst c, map (cell_text rt) (cells (snd c)))) (columns d);
          header = (if with_index then [[]] else []) @ map fst cols;
          body = map (\<lambda>r. (if with_index then [str_nat (fst r)] else []) @ map snd (snd r))
                     (rows_of (index d) cols)
      in header # body)"

text \<open>\<^verbatim>\<open>csv.writer\<close> with \<^verbatim>\<open>QUOTE_MINIMAL\<close>: a field with a comma, a quote or a line
  break in it is put in quotes, its quotes doubled; fields are joined with commas; a
  record of one empty field is written as two quotes.\<close>

definition comma :: char where "comma = CHR '',''"
definition dquote :: char where "dquote = CHR 0x22"
definition LF :: char where "LF = CHR 0x0A"
definition CR :: char where "CR = CHR 0x0D"

definition needs_quotes :: "runtime \<Rightarrow> string \<Rightarrow> bool" where
  "needs_quotes rt g \<longleftrightarrow>
     list_ex (\<lambda>c. c = comma \<or> c = dquote \<or> c = LF \<or> (quotes_cr rt \<and> c = CR)) g"

definition double_quotes :: "string \<Rightarrow> string" where
  "double_quotes g = concat (map (\<lambda>c. if c = dquote then [dquote, dquote] else [c]) g)"

definition csv_field :: "runtime \<Rightarrow> string \<Rightarrow> string" where
  "csv_field rt g = (if needs_quotes rt g then dquote # double_quotes g @ [dquote] else g)"

fun join_fields :: "string list \<Rightarrow> string" where
  "join_fields [] = []"
| "join_fields [g] = g"
| "join_fields (g # h # gs) = g @ comma # join_fields (h # gs)"

definition csv_record :: "runtime \<Rightarrow> string list \<Rightarrow> string" where
  "csv_record rt gs =
     (if gs = [[]] then [dquote, dquote] else join_fields (map (csv_field rt) gs)) @ [LF]"

definition to_csv :: "runtime \<Rightarrow> bool \<Rightarrow> dataframe \<Rightarrow> string" where
  "to_csv rt with_index d = concat (map (csv_record rt) (csv_rows rt with_index d))"

definition convert_df :: "runtime \<Rightarrow> dataframe \<Rightarrow> string" where
  "convert_df rt d = to_csv rt False d"

text \<open>The download button of the transformation page: the data and the file name it
  offers.  The page draws no button while no table is loaded.\<close>

definition download_button :: "runtime \<Rightarrow> session \<Rightarrow> (string \<times> string) option" where
  "download_button rt s =
     (case df s of
        None \<Rightarrow> None
      | Some d \<Rightarrow>
          Some (convert_df rt d,
                ''processed_'' @ (case file_name s of None \<Rightarrow> ''None'' | Some n \<Rightarrow> n)))"

text \<open>A runtime for the examples: floats that are whole numbers are written as Python
  writes them, with \<open>.0\<close>; other floats do not occur in the examples.\<close>

definition example_runtime :: runtime where
  "example_runtime = \<lparr>float_repr = (\<lambda>r. str_int \<lfloor>r\<rfloor> @ ''.0''), quotes_cr = True\<rparr>"

subsection \<open>The table of the specification's examples\<close>

text \<open>\<^verbatim>\<open>a,b\n1,10\n2,\n3,30\n\<close> as \<^verbatim>\<open>pd.read_csv\<close> reads it: \<open>a\<close> is int64, \<open>b\<close> is float64
  with one NaN.\<close>

definition example_df :: dataframe where
  "example_df = \<lparr>index = [0, 1, 2],
                  columns = [(''a'', Int64 [1, 2, 3]), (''b'', Float64 [Some 10, None, Some 30])]\<rparr>"

definition example_session :: session where
  "example_session = \<lparr>df = Some example_df, file_name = Some ''data.csv''\<rparr>"

text \<open>A second table, with a text column and one numeric column.\<close>

definition people_df :: dataframe where
  "people_df = \<lparr>index = [0, 1],
                 columns = [(''name'', Object [OStr ''ann'', ONaN]), (''age'', Float64 [Some 31, None])]\<rparr>"

definition people_session :: session where
  "people_session = \<lparr>df = Some people_df, file_name = Some ''people.csv''\<rparr>"

text \<open>A table with a boolean column, and one with integers beyond \<open>2 ^ 53\<close>:
  \<open>2 ^ 53 + 3\<close> and \<open>2 ^ 53 + 1000\<close>.\<close>

definition flags_df :: dataframe where
  "flags_df = \<lparr>index = [0, 1], columns = [(''ok'', Bool [True, False])]\<rparr>"

definition flags_session :: session where
  "flags_session = \<lparr>df = Some flags_df, file_name = Some ''flags.csv''\<rparr>"

definition big_df :: dataframe where
  "big_df = \<lparr>index = [0, 1],
              columns = [(''n'', Int64 [9007199254740995, 9007199254741992])]\<rparr>"

definition big_session :: session where
  "big_session = \<lparr>df = Some big_df, file_name = Some ''big.csv''\<rparr>"

subsection \<open>The vocabulary of the specification\<close>

text \<open>The type tag of a column, as the specification's data model has it: numeric, text
  or boolean.\<close>

datatype column_tag = NumericColumn | TextColumn | BooleanColumn

fun column_kind :: "series \<Rightarrow> column_tag" where
  "column_kind (Int64 xs) = NumericColumn"
| "column_kind (Float64 xs) = NumericColumn"
| "column_kind (Bool xs) = BooleanColumn"
| "column_kind (Object xs) = TextColumn"

text \<open>The number a cell stands for, if it is one.\<close>

fun scalar_num :: "scalar \<Rightarrow> rat option" where
  "scalar_num (SInt i) = Some (of_int i)"
| "scalar_num (SFloat r) = Some r"
| "scalar_num (SBool b) = Some (bool_num b)"
| "scalar_num (SStr t) = None"
| "scalar_num NaN = None"

text \<open>A cell lies in the closed interval from \<open>low\<close> to \<open>high\<close>; a missing cell lies in
  no interval.\<close>

definition in_interval :: "rat \<Rightarrow> rat \<Rightarrow> scalar \<Rightarrow> bool" where
  "in_interval low high v = (case scalar_num v of None \<Rightarrow> False | Some r \<Rightarrow> low \<le> r \<and> r \<le> high)"

definition row_value :: "string \<Rightarrow> row \<Rightarrow> scalar option" where
  "row_value col r = map_of (snd r) col"

definition row_in_interval :: "string \<Rightarrow> rat \<Rightarrow> rat \<Rightarrow> row \<Rightarrow> bool" where
  "row_in_interval col low high r =
     (case row_value col r of None \<Rightarrow> False | Some v \<Rightarrow> in_interval low high v)"

text \<open>The same with the float64 value of the cell, which for an integer beyond
  \<open>2 ^ 53\<close> is not the integer itself.\<close>

fun float64_num :: "scalar \<Rightarrow> rat option" where
  "float64_num (SInt i) = Some (float64_of_int i)"
| "float64_num (SFloat r) = Some r"
| "float64_num (SBool b) = Some (bool_num b)"
| "float64_num (SStr t) = None"
| "float64_num NaN = None"

definition in_float_interval :: "rat \<Rightarrow> rat \<Rightarrow> scalar \<Rightarrow> bool" where
  "in_float_interval low high v =
     (case float64_num v of None \<Rightarrow> False | Some r \<Rightarrow> low \<le> r \<and> r \<le> high)"

definition row_in_float_interval :: "string \<Rightarrow> rat \<Rightarrow> rat \<Rightarrow> row \<Rightarrow> bool" where
  "row_in_float_interval col low high r =
     (case row_value col r of None \<Rightarrow> False | Some v \<Rightarrow> in_float_interval low high v)"



text \<open>Reading CSV text back: records end at a line feed outside quotes, fields at a
  comma outside quotes, a doubled quote inside quotes is one quote; an empty line is a
  record with no field.  Text that stops inside a record, or with anything but a comma
  or a line feed after a closing quote, is not CSV.\<close>

datatype rmode = AtRecord | AtField | InField | InQuoted | AfterQuote

fun csv_read :: "rmode \<Rightarrow> string \<Rightarrow> string list \<Rightarrow> string list list \<Rightarrow> string
                 \<Rightarrow> string list list option" where
  "csv_read m f fs rs [] = (if m = AtRecord then Some (rev rs) else None)"
| "csv_read AtRecord f fs rs (c # cs) =
     (if c = LF then csv_read AtRecord [] [] (rev fs # rs) cs
      else if c = comma then csv_read AtField [] ([] # fs) rs cs
      else if c = dquote then csv_read InQuoted [] fs rs cs
      else csv_read InField [c] fs rs cs)"
| "csv_read AtField f fs rs (c # cs) =
     (if c = LF then csv_read AtRecord [] [] (rev ([] # fs) # rs) cs
      else if c = comma then csv_read AtField [] ([] # fs) rs cs
      else if c = dquote then csv_read InQuoted [] fs rs cs
      else csv_read InField [c] fs rs cs)"
| "csv_read InField f fs rs (c # cs) =
     (if c = LF then csv_read AtRecord [] [] (rev (rev f # fs) # rs) cs
      else if c = comma then csv_read AtField [] (rev f # fs) rs cs
      else csv_read InField (c # f) fs rs cs)"
| "csv_read InQuoted f fs rs (c # cs) =
     (if c = dquote then csv_read AfterQuote f fs rs cs
      else csv_read InQuoted (c # f) fs rs cs)"
| "csv_read AfterQuote f fs rs (c # cs) =
     (if c = dquote then csv_read InQuoted (dquote # f) fs rs cs
      else if c = LF then csv_read AtRecord [] [] (rev (rev f # fs) # rs) cs
      else if c = comma then csv_read AtField [] (rev f # fs) rs cs
      else None)"

definition csv_records :: "string \<Rightarrow> string list list option" where
  "csv_records text = csv_read AtRecord [] [] [] text"

text \<open>What the reader does once a field \<open>g\<close> is complete, by the character after it.\<close>

definition field_done :: "string \<Rightarrow> string list \<Rightarrow> string list list \<Rightarrow> char \<Rightarrow> string \<Rightarrow> string list list option" where
  "field_done g fs rs t rest =
     (if t = LF then csv_read AtRecord [] [] (rev (g # fs) # rs) rest
      else csv_read AtField [] (g # fs) rs rest)"

text \<open>The texts of the cells of a row, in column order.\<close>

definition row_texts :: "runtime \<Rightarrow> row \<Rightarrow> string list" where
  "row_texts rt r = map (\<lambda>p. cell_text rt (snd p)) (snd r)"

section \<open>Properties\<close>

subsection \<open>Selecting rows by a mask\<close>

lemma take_rows_Nil [simp]: "take_rows m [] = []" "take_rows [] xs = []"
  by (simp_all add: take_rows_def)

lemma take_rows_Cons [simp]:
  "take_rows (b # m) (x # xs) = (if b then x # take_rows m xs else take_rows m xs)"
  by (simp add: take_rows_def)

lemma take_rows_map: "take_rows m (map f xs) = map f (take_rows m xs)"
proof (induction xs arbitrary: m)
  case Nil
  show ?case by simp
next
  case (Cons x xs)
  show ?case by (cases m) (simp_all add: Cons.IH)
qed

lemma take_rows_by_pred: "take_rows (map P xs) xs = filter P xs"
  by (induction xs) simp_all

lemma length_take_rows: "length (take_rows m xs) \<le> length (filter (\<lambda>b. b) m)"
proof (induction xs arbitrary: m)
  case Nil
  show ?case by simp
next
  case (Cons x xs)
  show ?case
  proof (cases m)
    case Nil
    then show ?thesis by simp
  next
    case (Cons b m')
    with Cons.IH [of m'] show ?thesis by simp
  qed
qed

lemma take_rows_all_True:
  "length xs \<le> length m \<Longrightarrow> list_all (\<lambda>b. b) m \<Longrightarrow> take_rows m xs = xs"
proof (induction xs arbitrary: m)
  case Nil
  show ?case by simp
next
  case (Cons x xs)
  then obtain b m' where m: "m = b # m'" by (cases m) auto
  with Cons.prems have "b" and "length xs \<le> length m'" and "list_all (\<lambda>b. b) m'" by simp_all
  with Cons.IH [of m'] m show ?case by simp
qed

lemma cells_series_take: "cells (series_take m s) = take_rows m (cells s)"
  by (cases s) (simp_all add: take_rows_map)

lemma slen_cells: "length (cells s) = slen s"
  by (cases s) simp_all

lemma rows_of_take:
  "\<forall>c\<in>set cs. length (snd c) = length ls \<Longrightarrow> length m = length ls \<Longrightarrow>
   rows_of (take_rows m ls) (map (\<lambda>c. (fst c, take_rows m (snd c))) cs) = take_rows m (rows_of ls cs)"
proof (induction ls arbitrary: m cs)
  case Nil
  then show ?case by simp
next
  case (Cons l ls)
  then obtain b m' where m: "m = b # m'" and lm: "length m' = length ls"
    by (cases m) auto
  have shape: "\<And>c. c \<in> set cs \<Longrightarrow> snd c = hd (snd c) # tl (snd c) \<and> length (tl (snd c)) = length ls"
    using Cons.prems(1) by (metis length_Suc_conv list.sel(1) list.sel(3) length_Cons)
  have tls: "\<forall>c\<in>set (map (\<lambda>c. (fst c, tl (snd c))) cs). length (snd c) = length ls"
    using shape by auto
  have IH: "rows_of (take_rows m' ls) (map (\<lambda>c. (fst c, take_rows m' (snd c))) (map (\<lambda>c. (fst c, tl (snd c))) cs))
            = take_rows m' (rows_of ls (map (\<lambda>c. (fst c, tl (snd c))) cs))"
    by (rule Cons.IH [OF tls lm])
  have step: "\<And>c. c \<in> set cs \<Longrightarrow>
      take_rows (b # m') (snd c) = (if b then hd (snd c) # take_rows m' (tl (snd c)) else take_rows m' (tl (snd c)))"
    using shape by (metis take_rows_Cons)
  show ?case
  proof (cases b)
    case True
    have eq: "map (\<lambda>c. (fst c, take_rows m (snd c))) cs
          = map (\<lambda>c. (fst c, hd (snd c) # take_rows m' (tl (snd c)))) cs"
      using step True m by (intro map_cong) simp_all
    show ?thesis unfolding eq using IH True m by (simp add: comp_def)
  next
    case False
    have eq: "map (\<lambda>c. (fst c, take_rows m (snd c))) cs
          = map (\<lambda>c. (fst c, take_rows m' (tl (snd c)))) cs"
      using step False m by (intro map_cong) simp_all
    show ?thesis unfolding eq using IH False m by (simp add: comp_def)
  qed
qed

subsection \<open>Looking a column up\<close>

lemma getitem_Inr: "getitem d col = Inr c \<longleftrightarrow> map_of (columns d) col = Some c"
  by (simp add: getitem_def split: option.splits)

lemma getitem_Inl: "getitem d col = Inl e \<longleftrightarrow> map_of (columns d) col = None \<and> e = KeyError col"
  by (auto simp add: getitem_def split: option.splits)

subsection \<open>Imputation with the mean of a column that is not numeric\<close>

lemma setcol_same: "map_of cs col = Some c \<Longrightarrow> setcol cs col c = cs"
  by (induction cs) (auto split: if_splits)

lemma setitem_same: "getitem d col = Inr c \<Longrightarrow> setitem d col c = d"
  by (simp add: getitem_Inr setitem_def setcol_same)

lemma fillna_no_missing:
  "column_kind c = BooleanColumn \<Longrightarrow> is_numeric_dtype c \<and> fillna c x = c \<and> (\<exists>mu. mean c = Inr mu)"
  by (cases c) simp_all

text \<open>
  C1 as stated fails for a boolean column, which the specification's data model sets
  apart from the numeric ones: \<^verbatim>\<open>is_numeric_dtype\<close> holds of it, so "Fill with Mean" ends
  with "Transformation applied" and not with the error.
\<close>

theorem fill_mean_boolean_column_counterexample:
  "getitem flags_df ''ok'' = Inr (Bool [True, False])
   \<and> column_kind (Bool [True, False]) = BooleanColumn
   \<and> apply_transformation flags_session ''ok'' FillMean = (Rerun TransformationApplied, flags_session)"
  by (simp add: getitem_def apply_transformation_def flags_session_def flags_df_def setitem_def)

text \<open>
  C1, amended.  When a table is loaded and the chosen column exists and is a text column,
  "Fill with Mean" ends with the error "Cannot calculate mean for non-numeric column" and
  \<^verbatim>\<open>st.stop()\<close>, and the session, with its table, is exactly what it was.  A boolean
  column counts as numeric for \<^verbatim>\<open>is_numeric_dtype\<close>: there "Fill with Mean" ends with
  "Transformation applied"; the table is what it was in that case too, a boolean column
  having no missing value to fill.
\<close>

theorem fill_mean_by_column_kind:
  assumes "df s = Some d" and "getitem d col = Inr c"
  shows "(column_kind c = TextColumn \<longrightarrow>
            apply_transformation s col FillMean = (Stopped CannotCalculateMean, s))
       \<and> (column_kind c = BooleanColumn \<longrightarrow>
            apply_transformation s col FillMean = (Rerun TransformationApplied, s))"
proof (intro conjI impI)
  assume "column_kind c = TextColumn"
  then have "\<not> is_numeric_dtype c" by (cases c) simp_all
  with assms show "apply_transformation s col FillMean = (Stopped CannotCalculateMean, s)"
    by (simp add: apply_transformation_def)
next
  assume "column_kind c = BooleanColumn"
  from fillna_no_missing [OF this] obtain mu where
    n: "is_numeric_dtype c" and m: "mean c = Inr mu" and f: "fillna c mu = c"
    by blast
  have "s\<lparr>df := Some (setitem d col c)\<rparr> = s"
    using assms by (simp add: setitem_same)
  with assms n m f show "apply_transformation s col FillMean = (Rerun TransformationApplied, s)"
    by (simp add: apply_transformation_def)
qed

theorem fill_mean_by_column_kind_witness:
  "df people_session = Some people_df \<and> getitem people_df ''name'' = Inr (Object [OStr ''ann'', ONaN])
   \<and> column_kind (Object [OStr ''ann'', ONaN]) = TextColumn
   \<and> apply_transformation people_session ''name'' FillMean = (Stopped CannotCalculateMean, people_session)
   \<and> df flags_session = Some flags_df \<and> getitem flags_df ''ok'' = Inr (Bool [True, False])
   \<and> column_kind (Bool [True, False]) = BooleanColumn
   \<and> apply_transformation flags_session ''ok'' FillMean = (Rerun TransformationApplied, flags_session)"
proof -
  have a: "df people_session = Some people_df"
    by (simp add: people_session_def)
  have b: "getitem people_df ''name'' = Inr (Object [OStr ''ann'', ONaN])"
    by (simp add: getitem_def people_df_def)
  have c: "column_kind (Object [OStr ''ann'', ONaN]) = TextColumn"
    by simp
  have a': "df flags_session = Some flags_df"
    by (simp add: flags_session_def)
  have b': "getitem flags_df ''ok'' = Inr (Bool [True, False])"
    by (simp add: getitem_def flags_df_def)
  have c': "column_kind (Bool [True, False]) = BooleanColumn"
    by simp
  from fill_mean_by_column_kind [OF a b] c
  have on_text: "apply_transformation people_session ''name'' FillMean = (Stopped CannotCalculateMean, people_session)"
    by simp
  from fill_mean_by_column_kind [OF a' b'] c'
  have on_bool: "apply_transformation flags_session ''ok'' FillMean = (Rerun TransformationApplied, flags_session)"
    by simp
  from a b c on_text a' b' c' on_bool show ?thesis by simp
qed

subsection \<open>Dropping columns\<close>


lemma drop_columns_known:
  "set names \<subseteq> set (column_names d) \<Longrightarrow>
   drop_columns d names = Inr (d\<lparr>columns := filter (\<lambda>c. fst c \<notin> set names) (columns d)\<rparr>)"
proof -
  assume "set names \<subseteq> set (column_names d)"
  then have "filter (\<lambda>n. n \<notin> set (column_names d)) names = []"
    by (auto simp add: filter_empty_conv)
  then show ?thesis by (simp add: drop_columns_def)
qed

lemma drop_columns_unknown:
  "\<not> set names \<subseteq> set (column_names d) \<Longrightarrow>
   \<exists>n. n \<in> set names \<and> n \<notin> set (column_names d) \<and> drop_columns d names = Inl (KeyError n)"
proof -
  assume "\<not> set names \<subseteq> set (column_names d)"
  then have "filter (\<lambda>n. n \<notin> set (column_names d)) names \<noteq> []"
    by (auto simp add: filter_empty_conv)
  then obtain n ns where f: "filter (\<lambda>n. n \<notin> set (column_names d)) names = n # ns"
    by (cases "filter (\<lambda>n. n \<notin> set (column_names d)) names") auto
  then have "n \<in> set (filter (\<lambda>n. n \<notin> set (column_names d)) names)" by simp
  then have "n \<in> set names" "n \<notin> set (column_names d)" by simp_all
  with f show ?thesis by (auto simp add: drop_columns_def)
qed

lemma execute_drop_known:
  assumes "df s = Some d" and "set names \<subseteq> set (column_names d)"
  shows "execute_drop s names =
           (Rerun ColumnsRemoved, s\<lparr>df := Some (d\<lparr>columns := filter (\<lambda>c. fst c \<notin> set names) (columns d)\<rparr>)\<rparr>)"
  using assms drop_columns_known [of names d] by (simp add: execute_drop_def)

lemma execute_drop_unknown:
  assumes "df s = Some d" and "\<not> set names \<subseteq> set (column_names d)"
  shows "\<exists>n. n \<in> set names \<and> n \<notin> set (column_names d) \<and> execute_drop s names = (Raised (KeyError n), s)"
proof -
  from drop_columns_unknown [OF assms(2)] obtain n where
    "n \<in> set names" "n \<notin> set (column_names d)" "drop_columns d names = Inl (KeyError n)"
    by blast
  then show ?thesis using assms(1) by (auto simp add: execute_drop_def)
qed

text \<open>
  C2 as stated fails: \<^verbatim>\<open>df.drop(columns=...)\<close> does not ignore a name that is not a
  column, it raises KeyError, and the session keeps its table.
\<close>
theorem drop_unknown_name_counterexample:
  "execute_drop example_session [''z''] = (Raised (KeyError ''z''), example_session)"
  by (simp add: execute_drop_def example_session_def example_df_def drop_columns_def column_names_def)

text \<open>
  C2, amended.  For names that are all columns of the table (the multiselect offers no
  other), "Execute Drop" removes exactly the named columns, keeps the order of the others,
  keeps the index and with it the row count, and ends with the success message.  For a
  selection with a name that is not a column, \<^verbatim>\<open>df.drop\<close> raises KeyError for such a
  name and the session is unchanged.
\<close>

theorem execute_drop_selected_columns:
  assumes "df s = Some d"
  shows "(set names \<subseteq> set (column_names d) \<longrightarrow>
            (\<exists>d'. execute_drop s names = (Rerun ColumnsRemoved, s\<lparr>df := Some d'\<rparr>)
                \<and> columns d' = filter (\<lambda>c. fst c \<notin> set names) (columns d)
                \<and> set (column_names d') = set (column_names d) - set names
                \<and> index d' = index d \<and> nrows d' = nrows d))
       \<and> (\<not> set names \<subseteq> set (column_names d) \<longrightarrow>
            (\<exists>n. n \<in> set names \<and> n \<notin> set (column_names d)
                \<and> execute_drop s names = (Raised (KeyError n), s)))"
proof (intro conjI impI)
  assume sub: "set names \<subseteq> set (column_names d)"
  let ?d' = "d\<lparr>columns := filter (\<lambda>c. fst c \<notin> set names) (columns d)\<rparr>"
  have "execute_drop s names = (Rerun ColumnsRemoved, s\<lparr>df := Some ?d'\<rparr>)"
    by (rule execute_drop_known [OF assms sub])
  moreover have "set (column_names ?d') = set (column_names d) - set names"
    by (auto simp add: column_names_def)
  moreover have "nrows ?d' = nrows d"
    by (simp add: nrows_def)
  ultimately show "\<exists>d'. execute_drop s names = (Rerun ColumnsRemoved, s\<lparr>df := Some d'\<rparr>)
                \<and> columns d' = filter (\<lambda>c. fst c \<notin> set names) (columns d)
                \<and> set (column_names d') = set (column_names d) - set names
                \<and> index d' = index d \<and> nrows d' = nrows d"
    by (intro exI [of _ ?d']) simp
next
  assume "\<not> set names \<subseteq> set (column_names d)"
  then show "\<exists>n. n \<in> set names \<and> n \<notin> set (column_names d)
                \<and> execute_drop s names = (Raised (KeyError n), s)"
    by (rule execute_drop_unknown [OF assms])
qed

theorem execute_drop_selected_columns_witness:
  "df example_session = Some example_df
   \<and> set [''b''] \<subseteq> set (column_names example_df)
   \<and> (\<exists>d'. execute_drop example_session [''b''] = (Rerun ColumnsRemoved, example_session\<lparr>df := Some d'\<rparr>)
          \<and> columns d' = [(''a'', Int64 [1, 2, 3])] \<and> nrows d' = 3)
   \<and> \<not> set [''z''] \<subseteq> set (column_names example_df)
   \<and> execute_drop example_session [''z''] = (Raised (KeyError ''z''), example_session)"
proof -
  have a: "df example_session = Some example_df"
    by (simp add: example_session_def)
  have b: "set [''b''] \<subseteq> set (column_names example_df)"
    by (simp add: column_names_def example_df_def)
  have c: "\<not> set [''z''] \<subseteq> set (column_names example_df)"
    by (simp add: column_names_def example_df_def)
  have cols: "filter (\<lambda>c. fst c \<notin> set [''b'']) (columns example_df) = [(''a'', Int64 [1, 2, 3])]"
    by (simp add: example_df_def)
  have n: "nrows example_df = 3"
    by (simp add: nrows_def example_df_def)
  from execute_drop_selected_columns [OF a, of "[''b'']"] b cols n
  have first: "\<exists>d'. execute_drop example_session [''b''] = (Rerun ColumnsRemoved, example_session\<lparr>df := Some d'\<rparr>)
          \<and> columns d' = [(''a'', Int64 [1, 2, 3])] \<and> nrows d' = 3"
    by auto
  from execute_drop_selected_columns [OF a, of "[''z'']"] c
  have second: "execute_drop example_session [''z''] = (Raised (KeyError ''z''), example_session)"
    by auto
  from a b c first second show ?thesis by blast
qed

text \<open>
  C7 as stated fails: once \<open>b\<close> is dropped, dropping \<open>b\<close> again is no successful
  no-op, it raises KeyError.
\<close>
theorem drop_twice_counterexample:
  "fst (execute_drop (snd (execute_drop example_session [''b''])) [''b'']) = Raised (KeyError ''b'')"
  by (simp add: execute_drop_def example_session_def example_df_def drop_columns_def column_names_def)

text \<open>
  C7, amended.  The session's table after "Execute Drop" with the same names twice is the
  table after doing it once.  When the names were columns and the selection is not empty,
  the second run does not succeed: it raises KeyError for one of the names, which leaves
  the table as the first run made it.
\<close>

theorem execute_drop_twice:
  "snd (execute_drop (snd (execute_drop s names)) names) = snd (execute_drop s names)
   \<and> (\<forall>d. df s = Some d \<and> names \<noteq> [] \<and> set names \<subseteq> set (column_names d) \<longrightarrow>
         (\<exists>n \<in> set names. fst (execute_drop (snd (execute_drop s names)) names) = Raised (KeyError n)))"
proof (intro conjI allI impI)
  show "snd (execute_drop (snd (execute_drop s names)) names) = snd (execute_drop s names)"
  proof (cases "df s")
    case None
    then show ?thesis by (simp add: execute_drop_def)
  next
    case (Some d)
    show ?thesis
    proof (cases "set names \<subseteq> set (column_names d)")
      case False
      from execute_drop_unknown [OF Some False] show ?thesis by auto
    next
      case True
      let ?d' = "d\<lparr>columns := filter (\<lambda>c. fst c \<notin> set names) (columns d)\<rparr>"
      let ?s' = "s\<lparr>df := Some ?d'\<rparr>"
      have first: "execute_drop s names = (Rerun ColumnsRemoved, ?s')"
        by (rule execute_drop_known [OF Some True])
      have s': "df ?s' = Some ?d'" by simp
      show ?thesis
      proof (cases "names = []")
        case True
        then show ?thesis using Some by (simp add: execute_drop_def drop_columns_def)
      next
        case False
        then have "\<not> set names \<subseteq> set (column_names ?d')"
          by (cases names) (auto simp add: column_names_def)
        from execute_drop_unknown [OF s' this] first show ?thesis by auto
      qed
    qed
  qed
next
  fix d
  assume h: "df s = Some d \<and> names \<noteq> [] \<and> set names \<subseteq> set (column_names d)"
  let ?d' = "d\<lparr>columns := filter (\<lambda>c. fst c \<notin> set names) (columns d)\<rparr>"
  let ?s' = "s\<lparr>df := Some ?d'\<rparr>"
  have first: "execute_drop s names = (Rerun ColumnsRemoved, ?s')"
    using h by (intro execute_drop_known) simp_all
  have s': "df ?s' = Some ?d'" by simp
  from h have "\<not> set names \<subseteq> set (column_names ?d')"
    by (cases names) (auto simp add: column_names_def)
  from execute_drop_unknown [OF s' this] first
  show "\<exists>n \<in> set names. fst (execute_drop (snd (execute_drop s names)) names) = Raised (KeyError n)"
    by auto
qed

theorem execute_drop_twice_witness:
  "df example_session = Some example_df \<and> [''b''] \<noteq> [] \<and> set [''b''] \<subseteq> set (column_names example_df)
   \<and> snd (execute_drop (snd (execute_drop example_session [''b''])) [''b''])
       = snd (execute_drop example_session [''b''])
   \<and> fst (execute_drop (snd (execute_drop example_session [''b''])) [''b'']) = Raised (KeyError ''b'')"
proof -
  have a: "df example_session = Some example_df"
    by (simp add: example_session_def)
  have b: "set [''b''] \<subseteq> set (column_names example_df)"
    by (simp add: column_names_def example_df_def)
  from execute_drop_twice [of example_session "[''b'']"] a b show ?thesis
    by auto
qed

subsection \<open>The range filter, row by row\<close>


lemma set_take_rows: "set (take_rows m xs) \<subseteq> set xs"
  by (auto simp add: take_rows_def dest: set_zip_leftD)

lemma distinct_take_rows: "distinct xs \<Longrightarrow> distinct (take_rows m xs)"
proof (induction xs arbitrary: m)
  case Nil
  show ?case by simp
next
  case (Cons x xs)
  show ?case
  proof (cases m)
    case Nil
    then show ?thesis by simp
  next
    case (Cons b m')
    from Cons.prems have "x \<notin> set (take_rows m' xs)"
      using set_take_rows [of m' xs] by auto
    with Cons.IH [of m'] Cons.prems Cons show ?thesis by simp
  qed
qed

lemma length_take_rows_eq:
  "length xs = length m \<Longrightarrow> length (take_rows m xs) = length (filter (\<lambda>b. b) m)"
proof (induction xs arbitrary: m)
  case Nil
  then show ?case by simp
next
  case (Cons x xs)
  then obtain b m' where "m = b # m'" and "length xs = length m'" by (cases m) auto
  with Cons.IH [of m'] show ?case by simp
qed

lemma slen_series_take: "slen (series_take m s) = length (take_rows m (cells s))"
  by (cases s) (simp_all add: take_rows_map)

lemma wf_df_take:
  assumes "wf_df d" and "length m = nrows d"
  shows "wf_df (df_take m d)"
proof -
  have names: "column_names (df_take m d) = column_names d"
    by (simp add: df_take_def column_names_def comp_def)
  have idx: "distinct (index (df_take m d))"
    using assms(1) by (simp add: df_take_def wf_df_def distinct_take_rows)
  have "slen (snd c) = nrows (df_take m d)" if "c \<in> set (columns (df_take m d))" for c
  proof -
    from that obtain c0 where c0: "c0 \<in> set (columns d)" and c: "c = (fst c0, series_take m (snd c0))"
      by (auto simp add: df_take_def)
    from c0 assms(1) have "slen (snd c0) = nrows d"
      by (simp add: wf_df_def list_all_iff)
    then have "length (cells (snd c0)) = length m"
      using assms(2) by (simp add: slen_cells)
    then have "slen (snd c) = length (filter (\<lambda>b. b) m)"
      using c by (simp add: slen_series_take length_take_rows_eq)
    moreover have "nrows (df_take m d) = length (filter (\<lambda>b. b) m)"
      using assms(2) by (simp add: df_take_def nrows_def length_take_rows_eq)
    ultimately show ?thesis by simp
  qed
  then show ?thesis
    using names idx assms(1) by (simp add: wf_df_def list_all_iff)
qed

lemma rows_df_take:
  assumes "wf_df d" and "length m = nrows d"
  shows "rows (df_take m d) = take_rows m (rows d)"
proof -
  let ?cs = "map (\<lambda>c. (fst c, cells (snd c))) (columns d)"
  have len: "\<forall>c\<in>set ?cs. length (snd c) = length (index d)"
    using assms(1) by (auto simp add: wf_df_def list_all_iff slen_cells nrows_def)
  have "rows (df_take m d) = rows_of (take_rows m (index d)) (map (\<lambda>c. (fst c, take_rows m (snd c))) ?cs)"
    by (simp add: rows_def df_take_def comp_def cells_series_take)
  also have "\<dots> = take_rows m (rows_of (index d) ?cs)"
    using len assms(2) by (intro rows_of_take) (simp_all add: nrows_def)
  finally show ?thesis by (simp add: rows_def)
qed

lemma map_of_map_snd: "map_of (map (\<lambda>c. (fst c, f (snd c))) cs) k = map_option f (map_of cs k)"
  by (induction cs) simp_all

lemma rows_of_column:
  "map_of cs col = Some vs \<Longrightarrow> \<forall>c\<in>set cs. length (snd c) = length ls \<Longrightarrow>
   map (row_value col) (rows_of ls cs) = map Some vs"
proof (induction ls arbitrary: cs vs)
  case Nil
  from Nil.prems(1) have "(col, vs) \<in> set cs" by (rule map_of_SomeD)
  with Nil.prems(2) have "vs = []" by auto
  then show ?case by simp
next
  case (Cons l ls)
  from Cons.prems(1) have "(col, vs) \<in> set cs" by (rule map_of_SomeD)
  with Cons.prems(2) have "length vs = Suc (length ls)" by auto
  then obtain v vs' where vs: "vs = v # vs'" by (cases vs) auto
  have hd: "row_value col (l, map (\<lambda>c. (fst c, hd (snd c))) cs) = Some v"
    using Cons.prems(1) vs by (simp add: row_value_def map_of_map_snd)
  have tl: "map_of (map (\<lambda>c. (fst c, tl (snd c))) cs) col = Some vs'"
    using Cons.prems(1) vs by (simp add: map_of_map_snd)
  have len: "\<forall>c\<in>set (map (\<lambda>c. (fst c, tl (snd c))) cs). length (snd c) = length ls"
    using Cons.prems(2) by auto
  from Cons.IH [OF tl len] hd vs show ?case by simp
qed

lemma rows_column:
  assumes "wf_df d" and "getitem d col = Inr c"
  shows "map (row_value col) (rows d) = map Some (cells c)"
proof -
  let ?cs = "map (\<lambda>c. (fst c, cells (snd c))) (columns d)"
  have "map_of ?cs col = Some (cells c)"
    using assms(2) by (simp add: getitem_Inr map_of_map_snd)
  moreover have "\<forall>c\<in>set ?cs. length (snd c) = length (index d)"
    using assms(1) by (auto simp add: wf_df_def list_all_iff slen_cells nrows_def)
  ultimately show ?thesis unfolding rows_def by (rule rows_of_column)
qed

lemma length_rows_of: "length (rows_of ls cs) = length ls"
  by (induction ls arbitrary: cs) simp_all

lemma mask_by_rows:
  assumes "wf_df d" and "getitem d col = Inr c"
  shows "map (in_float_interval low high) (cells c) = map (row_in_float_interval col low high) (rows d)"
proof -
  have "map (row_in_float_interval col low high) (rows d)
        = map (\<lambda>v. case v of None \<Rightarrow> False | Some w \<Rightarrow> in_float_interval low high w) (map (row_value col) (rows d))"
    by (simp add: row_in_float_interval_def comp_def)
  also have "\<dots> = map (in_float_interval low high) (cells c)"
    by (simp add: rows_column [OF assms] comp_def)
  finally show ?thesis by simp
qed

lemma zip_same_map: "map h (zip (map f xs) (map g xs)) = map (\<lambda>x. h (f x, g x)) xs"
  by (induction xs) simp_all

lemma significand_shift_small: "n < 2 ^ 53 \<Longrightarrow> significand_shift n = 0"
  by (simp add: significand_shift.simps)

lemma round_to_float64_small: "n < 2 ^ 53 \<Longrightarrow> round_to_float64 n = n"
  by (simp add: round_to_float64_def significand_shift_small)

lemma float64_of_int_exact: "\<bar>i\<bar> < 2 ^ 53 \<Longrightarrow> float64_of_int i = of_int i"
proof (cases "i < 0")
  case True
  assume "\<bar>i\<bar> < 2 ^ 53"
  with True have "nat (- i) < 2 ^ 53" by (simp add: nat_less_iff)
  then have "round_to_float64 (nat (- i)) = nat (- i)" by (rule round_to_float64_small)
  with True show ?thesis by (simp add: float64_of_int_def)
next
  case False
  assume "\<bar>i\<bar> < 2 ^ 53"
  with False have "nat i < 2 ^ 53" by (simp add: nat_less_iff)
  then have "round_to_float64 (nat i) = nat i" by (rule round_to_float64_small)
  with False show ?thesis by (simp add: float64_of_int_def)
qed

lemma filter_mask:
  assumes "is_numeric_dtype c"
  shows "\<exists>a b. series_ge c low = Inr a \<and> series_le c high = Inr b
               \<and> mask_and a b = map (in_float_interval low high) (cells c)"
proof (cases c)
  case (Int64 xs)
  then show ?thesis by (simp add: mask_and_def zip_same_map in_float_interval_def comp_def)
next
  case (Float64 xs)
  have "(case v of None \<Rightarrow> False | Some r \<Rightarrow> low \<le> r) \<and> (case v of None \<Rightarrow> False | Some r \<Rightarrow> r \<le> high)
        \<longleftrightarrow> in_float_interval low high (case v of None \<Rightarrow> NaN | Some r \<Rightarrow> SFloat r)" for v
    by (cases v) (simp_all add: in_float_interval_def)
  with Float64 show ?thesis by (simp add: mask_and_def zip_same_map comp_def)
next
  case (Bool xs)
  then show ?thesis by (simp add: mask_and_def zip_same_map in_float_interval_def comp_def)
next
  case (Object xs)
  with assms show ?thesis by simp
qed

lemma apply_filter_numeric:
  assumes "df s = Some d" and "getitem d col = Inr c" and "is_numeric_dtype c"
  shows "apply_filter s col low high
         = (Rerun FilterApplied, s\<lparr>df := Some (df_take (map (in_float_interval low high) (cells c)) d)\<rparr>)"
proof -
  from filter_mask [OF assms(3), of low high] obtain a b where
    "series_ge c low = Inr a" "series_le c high = Inr b"
    "mask_and a b = map (in_float_interval low high) (cells c)"
    by blast
  with assms show ?thesis by (simp add: apply_filter_def)
qed

lemma filtered_rows:
  assumes "wf_df d" and "getitem d col = Inr c"
  shows "rows (df_take (map (in_float_interval low high) (cells c)) d) = filter (row_in_float_interval col low high) (rows d)"
proof -
  have "(col, c) \<in> set (columns d)"
    using assms(2) by (simp add: getitem_Inr map_of_SomeD)
  with assms(1) have len: "length (map (in_float_interval low high) (cells c)) = nrows d"
    by (auto simp add: wf_df_def list_all_iff slen_cells)
  show ?thesis
    unfolding rows_df_take [OF assms(1) len]
    unfolding mask_by_rows [OF assms]
    by (rule take_rows_by_pred)
qed


lemma wf_example_df: "wf_df example_df"
  by (simp add: wf_df_def column_names_def nrows_def example_df_def)

lemma apply_filter_result:
  assumes "df s = Some d" and "wf_df d" and "getitem d col = Inr c" and "is_numeric_dtype c"
  shows "\<exists>d'. apply_filter s col low high = (Rerun FilterApplied, s\<lparr>df := Some d'\<rparr>)
              \<and> wf_df d' \<and> column_names d' = column_names d
              \<and> rows d' = filter (row_in_float_interval col low high) (rows d)"
proof -
  let ?m = "map (in_float_interval low high) (cells c)"
  have "(col, c) \<in> set (columns d)"
    using assms(3) by (simp add: getitem_Inr map_of_SomeD)
  with assms(2) have len: "length ?m = nrows d"
    by (auto simp add: wf_df_def list_all_iff slen_cells)
  have "apply_filter s col low high = (Rerun FilterApplied, s\<lparr>df := Some (df_take ?m d)\<rparr>)"
    by (rule apply_filter_numeric [OF assms(1) assms(3) assms(4)])
  moreover have "wf_df (df_take ?m d)"
    by (rule wf_df_take [OF assms(2) len])
  moreover have "column_names (df_take ?m d) = column_names d"
    by (simp add: df_take_def column_names_def comp_def)
  moreover have "rows (df_take ?m d) = filter (row_in_float_interval col low high) (rows d)"
    by (rule filtered_rows [OF assms(2) assms(3)])
  ultimately show ?thesis by blast
qed

lemma row_values_are_cells:
  assumes "wf_df d" and "getitem d col = Inr c" and "r \<in> set (rows d)"
  shows "\<exists>v\<in>set (cells c). row_value col r = Some v"
proof -
  from assms(3) have "row_value col r \<in> set (map (row_value col) (rows d))" by simp
  then have "row_value col r \<in> set (map Some (cells c))"
    by (simp only: rows_column [OF assms(1) assms(2)])
  then show ?thesis by auto
qed

lemma exact_rows:
  assumes "wf_df d" and "getitem d col = Inr c"
    and "\<forall>v\<in>set (cells c). float64_num v = scalar_num v"
  shows "filter (row_in_float_interval col low high) (rows d) = filter (row_in_interval col low high) (rows d)"
proof (rule filter_cong [OF refl])
  fix r
  assume "r \<in> set (rows d)"
  from row_values_are_cells [OF assms(1) assms(2) this] obtain v where
    "v \<in> set (cells c)" and "row_value col r = Some v" by blast
  with assms(3) show "row_in_float_interval col low high r = row_in_interval col low high r"
    by (simp add: row_in_float_interval_def row_in_interval_def in_float_interval_def in_interval_def)
qed

lemma float64_of_int_tie: "float64_of_int 9007199254740995 = 9007199254740996"
proof -
  have a: "significand_shift 9007199254740995 = Suc (significand_shift 4503599627370497)"
    by (subst significand_shift.simps) simp
  have b: "significand_shift 4503599627370497 = 0"
    by (subst significand_shift.simps) simp
  show ?thesis
    by (simp add: float64_of_int_def round_to_float64_def a b)
qed

lemma float64_of_int_even: "float64_of_int 9007199254741992 = 9007199254741992"
proof -
  have a: "significand_shift 9007199254741992 = Suc (significand_shift 4503599627370996)"
    by (subst significand_shift.simps) simp
  have b: "significand_shift 4503599627370996 = 0"
    by (subst significand_shift.simps) simp
  show ?thesis
    by (simp add: float64_of_int_def round_to_float64_def a b)
qed

text \<open>
  C5 as stated fails on an int64 column with values beyond \<open>2 ^ 53\<close>.  The column holds
  \<open>2 ^ 53 + 3\<close> and \<open>2 ^ 53 + 1000\<close>; the slider, left alone, gives the bounds
  \<open>float(min) = 2 ^ 53 + 4\<close> and \<open>float(max) = 2 ^ 53 + 1000\<close>.  The first value is below
  the lower bound, yet the filter keeps its row: the table is what it was.
\<close>

theorem filter_range_large_int_counterexample:
  "\<not> in_interval 9007199254740996 9007199254741992 (SInt 9007199254740995)
   \<and> rows big_df = [(0, [(''n'', SInt 9007199254740995)]), (1, [(''n'', SInt 9007199254741992)])]
   \<and> apply_filter big_session ''n'' 9007199254740996 9007199254741992
       = (Rerun FilterApplied, big_session)"
  by (simp add: in_interval_def rows_def apply_filter_def big_session_def big_df_def getitem_def
      mask_and_def df_take_def float64_of_int_tie float64_of_int_even)

text \<open>
  C5, amended.  For a loaded table, a numeric column \<open>col\<close> and any two bounds (in
  particular \<open>low \<le> high\<close>), "Apply Filter" replaces the table by one with the same columns
  whose rows are exactly the rows of the old table whose value in \<open>col\<close>, taken as a
  float64, lies in the closed interval from \<open>low\<close> to \<open>high\<close>: in the old order, each row
  with its label and all its cells.  When the float64 value of every cell of \<open>col\<close> is the
  cell's own value (any float or boolean column, and integers below \<open>2 ^ 53\<close> in
  magnitude), these are exactly the rows whose value in \<open>col\<close> lies in the interval.
\<close>

theorem filter_range_keeps_rows_in_float_interval:
  assumes "df s = Some d" and "wf_df d" and "getitem d col = Inr c" and "is_numeric_dtype c"
  shows "\<exists>d'. apply_filter s col low high = (Rerun FilterApplied, s\<lparr>df := Some d'\<rparr>)
              \<and> wf_df d' \<and> column_names d' = column_names d
              \<and> rows d' = filter (row_in_float_interval col low high) (rows d)
              \<and> ((\<forall>v\<in>set (cells c). float64_num v = scalar_num v) \<longrightarrow>
                    rows d' = filter (row_in_interval col low high) (rows d))"
proof -
  from apply_filter_result [OF assms, of low high] obtain d' where
    d': "apply_filter s col low high = (Rerun FilterApplied, s\<lparr>df := Some d'\<rparr>)"
      "wf_df d'" "column_names d' = column_names d"
      "rows d' = filter (row_in_float_interval col low high) (rows d)"
    by blast
  have "rows d' = filter (row_in_interval col low high) (rows d)"
    if "\<forall>v\<in>set (cells c). float64_num v = scalar_num v"
    using d'(4) exact_rows [OF assms(2) assms(3) that, of low high] by simp
  with d' show ?thesis by blast
qed

theorem filter_range_keeps_rows_in_float_interval_witness:
  "df example_session = Some example_df \<and> wf_df example_df
   \<and> getitem example_df ''a'' = Inr (Int64 [1, 2, 3]) \<and> is_numeric_dtype (Int64 [1, 2, 3])
   \<and> list_all (\<lambda>v. float64_num v = scalar_num v) (cells (Int64 [1, 2, 3]))
   \<and> (\<exists>d'. apply_filter example_session ''a'' 2 3 = (Rerun FilterApplied, example_session\<lparr>df := Some d'\<rparr>)
          \<and> rows d' = [(1, [(''a'', SInt 2), (''b'', NaN)]), (2, [(''a'', SInt 3), (''b'', SFloat 30)])])"
proof -
  have a: "df example_session = Some example_df"
    by (simp add: example_session_def)
  have b: "getitem example_df ''a'' = Inr (Int64 [1, 2, 3])"
    by (simp add: getitem_def example_df_def)
  have c: "is_numeric_dtype (Int64 [1, 2, 3])"
    by simp
  have e: "\<forall>v\<in>set (cells (Int64 [1, 2, 3])). float64_num v = scalar_num v"
    by (simp add: float64_of_int_exact)
  have e': "list_all (\<lambda>v. float64_num v = scalar_num v) (cells (Int64 [1, 2, 3]))"
    by (simp add: float64_of_int_exact)
  have r: "filter (row_in_interval ''a'' 2 3) (rows example_df)
           = [(1, [(''a'', SInt 2), (''b'', NaN)]), (2, [(''a'', SInt 3), (''b'', SFloat 30)])]"
    by (simp add: rows_def example_df_def row_in_interval_def row_value_def in_interval_def)
  from filter_range_keeps_rows_in_float_interval [OF a wf_example_df b c, of 2 3] e r
  have "\<exists>d'. apply_filter example_session ''a'' 2 3 = (Rerun FilterApplied, example_session\<lparr>df := Some d'\<rparr>)
          \<and> rows d' = [(1, [(''a'', SInt 2), (''b'', NaN)]), (2, [(''a'', SInt 3), (''b'', SFloat 30)])]"
    by auto
  with a b c e' wf_example_df show ?thesis by blast
qed

text \<open>
  C10.  Whatever the bounds, the filter on a numeric column removes every row whose value
  in that column is missing: no such row of the old table is a row of the new one, and no
  row of the new table has a missing value there.
\<close>
theorem filter_range_removes_missing:
  assumes "df s = Some d" and "wf_df d" and "getitem d col = Inr c" and "is_numeric_dtype c"
  shows "\<exists>d'. apply_filter s col low high = (Rerun FilterApplied, s\<lparr>df := Some d'\<rparr>)
              \<and> (\<forall>r\<in>set (rows d). row_value col r = Some NaN \<longrightarrow> r \<notin> set (rows d'))
              \<and> (\<forall>r\<in>set (rows d'). row_value col r \<noteq> Some NaN)"
proof -
  from apply_filter_result [OF assms, of low high] obtain d' where
    run: "apply_filter s col low high = (Rerun FilterApplied, s\<lparr>df := Some d'\<rparr>)"
    and rows: "rows d' = filter (row_in_float_interval col low high) (rows d)"
    by blast
  have "\<not> row_in_float_interval col low high r" if "row_value col r = Some NaN" for r
    using that by (simp add: row_in_float_interval_def in_float_interval_def)
  with rows have "(\<forall>r\<in>set (rows d). row_value col r = Some NaN \<longrightarrow> r \<notin> set (rows d'))
              \<and> (\<forall>r\<in>set (rows d'). row_value col r \<noteq> Some NaN)"
    by auto
  with run show ?thesis by blast
qed

theorem filter_range_removes_missing_witness:
  "df example_session = Some example_df \<and> wf_df example_df
   \<and> getitem example_df ''b'' = Inr (Float64 [Some 10, None, Some 30])
   \<and> is_numeric_dtype (Float64 [Some 10, None, Some 30])
   \<and> (1, [(''a'', SInt 2), (''b'', NaN)]) \<in> set (rows example_df)
   \<and> row_value ''b'' (1, [(''a'', SInt 2), (''b'', NaN)]) = Some NaN
   \<and> (\<exists>d'. apply_filter example_session ''b'' 10 30 = (Rerun FilterApplied, example_session\<lparr>df := Some d'\<rparr>)
          \<and> (1, [(''a'', SInt 2), (''b'', NaN)]) \<notin> set (rows d'))"
proof -
  have a: "df example_session = Some example_df"
    by (simp add: example_session_def)
  have b: "getitem example_df ''b'' = Inr (Float64 [Some 10, None, Some 30])"
    by (simp add: getitem_def example_df_def)
  have c: "is_numeric_dtype (Float64 [Some 10, None, Some 30])"
    by simp
  have r: "(1, [(''a'', SInt 2), (''b'', NaN)]) \<in> set (rows example_df)"
    by (simp add: rows_def example_df_def)
  have v: "row_value ''b'' (1, [(''a'', SInt 2), (''b'', NaN)]) = Some NaN"
    by (simp add: row_value_def)
  from filter_range_removes_missing [OF a wf_example_df b c, of 10 30] r v
  have "\<exists>d'. apply_filter example_session ''b'' 10 30 = (Rerun FilterApplied, example_session\<lparr>df := Some d'\<rparr>)
          \<and> (1, [(''a'', SInt 2), (''b'', NaN)]) \<notin> set (rows d')"
    by blast
  with a b c r v wf_example_df show ?thesis by blast
qed

lemma series_take_numeric: "is_numeric_dtype (series_take m c) = is_numeric_dtype c"
  by (cases c) simp_all

lemma take_rows_twice:
  assumes "list_all (\<lambda>b. b) m1" and "length (filter (\<lambda>b. b) m) \<le> length m1"
  shows "take_rows m1 (take_rows m xs) = take_rows m xs"
  using assms length_take_rows [of m xs] by (intro take_rows_all_True) simp_all

lemma series_take_twice:
  assumes "list_all (\<lambda>b. b) m1" and "length (filter (\<lambda>b. b) m) \<le> length m1"
  shows "series_take m1 (series_take m c) = series_take m c"
  by (cases c) (simp_all add: take_rows_twice [OF assms])

lemma df_take_twice:
  assumes "list_all (\<lambda>b. b) m1" and "length (filter (\<lambda>b. b) m) \<le> length m1"
  shows "df_take m1 (df_take m d) = df_take m d"
proof -
  show ?thesis
    by (simp add: df_take_def comp_def series_take_twice [OF assms] take_rows_twice [OF assms])
qed

lemma getitem_df_take:
  "getitem d col = Inr c \<Longrightarrow> getitem (df_take m d) col = Inr (series_take m c)"
  by (simp add: getitem_Inr df_take_def map_of_map_snd)

text \<open>
  C8.  Filtering a numeric column with the same bounds a second time succeeds and leaves
  the session, and so the table, exactly as the first filter left it.
\<close>
theorem filter_range_twice:
  assumes "df s = Some d" and "getitem d col = Inr c" and "is_numeric_dtype c"
  shows "\<exists>s'. apply_filter s col low high = (Rerun FilterApplied, s')
              \<and> apply_filter s' col low high = (Rerun FilterApplied, s')"
proof -
  let ?P = "in_float_interval low high"
  let ?m = "map ?P (cells c)"
  let ?d1 = "df_take ?m d"
  let ?s1 = "s\<lparr>df := Some ?d1\<rparr>"
  let ?c1 = "series_take ?m c"
  let ?m1 = "map ?P (cells ?c1)"
  have first: "apply_filter s col low high = (Rerun FilterApplied, ?s1)"
    by (rule apply_filter_numeric [OF assms])
  have s1: "df ?s1 = Some ?d1" by simp
  have c1: "getitem ?d1 col = Inr ?c1"
    by (rule getitem_df_take [OF assms(2)])
  have n1: "is_numeric_dtype ?c1"
    using assms(3) by (simp add: series_take_numeric)
  have cells1: "cells ?c1 = filter ?P (cells c)"
    by (simp add: cells_series_take take_rows_by_pred)
  have all: "list_all (\<lambda>b. b) ?m1"
    by (simp add: cells1 list_all_iff)
  have len: "length (filter (\<lambda>b. b) ?m) \<le> length ?m1"
    by (simp add: cells1 filter_map comp_def)
  have "apply_filter ?s1 col low high = (Rerun FilterApplied, ?s1\<lparr>df := Some (df_take ?m1 ?d1)\<rparr>)"
    by (rule apply_filter_numeric [OF s1 c1 n1])
  also have "df_take ?m1 ?d1 = ?d1"
    by (rule df_take_twice [OF all len])
  finally have "apply_filter ?s1 col low high = (Rerun FilterApplied, ?s1)" by simp
  with first show ?thesis by blast
qed

theorem filter_range_twice_witness:
  "df example_session = Some example_df \<and> getitem example_df ''b'' = Inr (Float64 [Some 10, None, Some 30])
   \<and> is_numeric_dtype (Float64 [Some 10, None, Some 30])
   \<and> apply_filter (snd (apply_filter example_session ''b'' 10 20)) ''b'' 10 20
       = apply_filter example_session ''b'' 10 20
   \<and> fst (apply_filter example_session ''b'' 10 20) = Rerun FilterApplied"
proof -
  have a: "df example_session = Some example_df"
    by (simp add: example_session_def)
  have b: "getitem example_df ''b'' = Inr (Float64 [Some 10, None, Some 30])"
    by (simp add: getitem_def example_df_def)
  have c: "is_numeric_dtype (Float64 [Some 10, None, Some 30])"
    by simp
  from filter_range_twice [OF a b c, of 10 20] a b c show ?thesis
    by auto
qed

subsection \<open>The correlation tab\<close>





subsection \<open>Loading a file\<close>

lemma endswith_upper_csv: "\<not> endswith ''DATA.CSV'' ''.csv''" "\<not> endswith ''DATA.CSV'' ''.xlsx''"
  by (simp_all add: endswith_def)

lemma load_data_other_suffix:
  "\<not> endswith name ''.csv'' \<Longrightarrow> \<not> endswith name ''.xlsx'' \<Longrightarrow>
   load_data name read_csv read_excel = (None, [])"
  by (simp add: load_data_def)

lemma load_data_parse_error:
  "endswith name ''.csv'' \<Longrightarrow> load_data name (Inl e) read_excel = (None, [ErrorLoadingFile e])"
  "\<not> endswith name ''.csv'' \<Longrightarrow> endswith name ''.xlsx'' \<Longrightarrow>
   load_data name read_csv (Inl e) = (None, [ErrorLoadingFile e])"
  by (simp_all add: load_data_def)

text \<open>
  C4.  A file named \<open>DATA.CSV\<close>: the name ends with neither \<open>.csv\<close> nor \<open>.xlsx\<close>, so
  \<^verbatim>\<open>load_data\<close> falls through both branches; it returns None and shows nothing, and the
  ingestion page shows nothing and leaves the session as it was, whatever the bytes are.
\<close>

theorem load_data_other_suffix_silent:
  "load_data ''DATA.CSV'' read_csv read_excel = (None, [])
   \<and> ingestion s ''DATA.CSV'' read_csv read_excel = ([], s)"
  by (simp add: load_data_def ingestion_def endswith_upper_csv)

subsection \<open>Imputation with the mean of a numeric column\<close>











subsection \<open>Reading back what the writer wrote\<close>


lemma chars_distinct [simp]:
  "comma \<noteq> LF" "LF \<noteq> comma" "comma \<noteq> dquote" "dquote \<noteq> comma" "dquote \<noteq> LF" "LF \<noteq> dquote"
  by (simp_all add: comma_def LF_def dquote_def)

lemma read_unquoted:
  "\<forall>c\<in>set g. c \<noteq> LF \<and> c \<noteq> comma \<Longrightarrow>
   csv_read InField f fs rs (g @ rest) = csv_read InField (rev g @ f) fs rs rest"
  by (induction g arbitrary: f) simp_all

lemma double_quotes_simps [simp]:
  "double_quotes [] = []"
  "double_quotes (c # g) = (if c = dquote then [dquote, dquote] else [c]) @ double_quotes g"
  by (simp_all add: double_quotes_def)

lemma read_quoted:
  "csv_read InQuoted f fs rs (double_quotes g @ dquote # rest) = csv_read AfterQuote (rev g @ f) fs rs rest"
proof (induction g arbitrary: f)
  case Nil
  show ?case by simp
next
  case (Cons c g)
  show ?case
    using Cons.IH [of "c # f"] by (cases "c = dquote") simp_all
qed

lemma read_field:
  assumes t: "t = LF \<or> t = comma" and m: "m = AtRecord \<or> m = AtField"
    and ne: "\<not> (m = AtRecord \<and> t = LF \<and> g = [])"
  shows "csv_read m [] fs rs (csv_field rt g @ t # rest) = field_done g fs rs t rest"
proof (cases "needs_quotes rt g")
  case True
  have "csv_read m [] fs rs (dquote # double_quotes g @ dquote # t # rest)
        = csv_read InQuoted [] fs rs (double_quotes g @ dquote # t # rest)"
    using m by auto
  also have "\<dots> = csv_read AfterQuote (rev g) fs rs (t # rest)"
    using read_quoted [of "[]" fs rs g "t # rest"] by simp
  also have "\<dots> = field_done g fs rs t rest"
    using t by (auto simp add: field_done_def)
  finally show ?thesis using True by (simp add: csv_field_def)
next
  case False
  then have plain: "\<forall>c\<in>set g. c \<noteq> LF \<and> c \<noteq> comma \<and> c \<noteq> dquote"
    by (auto simp add: needs_quotes_def list_ex_iff)
  show ?thesis
  proof (cases g)
    case Nil
    then show ?thesis using t m ne False by (auto simp add: csv_field_def field_done_def)
  next
    case (Cons c g')
    with plain have c: "c \<noteq> LF" "c \<noteq> comma" "c \<noteq> dquote"
      and g': "\<forall>c\<in>set g'. c \<noteq> LF \<and> c \<noteq> comma" by simp_all
    have "csv_read m [] fs rs (c # g' @ t # rest) = csv_read InField [c] fs rs (g' @ t # rest)"
      using m c by auto
    also have "\<dots> = csv_read InField (rev g' @ [c]) fs rs (t # rest)"
      by (rule read_unquoted [OF g'])
    also have "\<dots> = field_done g fs rs t rest"
      using t Cons by (auto simp add: field_done_def)
    finally show ?thesis using False Cons by (simp add: csv_field_def)
  qed
qed


lemma read_fields:
  "gs \<noteq> [] \<Longrightarrow>
   csv_read AtField [] fs rs (join_fields (map (csv_field rt) gs) @ LF # rest)
   = csv_read AtRecord [] [] ((rev fs @ gs) # rs) rest"
proof (induction gs arbitrary: fs rule: join_fields.induct)
  case 1
  then show ?case by simp
next
  case (2 g)
  have "csv_read AtField [] fs rs (csv_field rt g @ LF # rest) = field_done g fs rs LF rest"
    by (rule read_field) simp_all
  then show ?case by (simp add: field_done_def)
next
  case (3 g h gs)
  have "csv_read AtField [] fs rs (csv_field rt g @ comma # join_fields (map (csv_field rt) (h # gs)) @ LF # rest)
        = field_done g fs rs comma (join_fields (map (csv_field rt) (h # gs)) @ LF # rest)"
    by (rule read_field) simp_all
  also have "\<dots> = csv_read AtField [] (g # fs) rs (join_fields (map (csv_field rt) (h # gs)) @ LF # rest)"
    by (simp add: field_done_def)
  also have "\<dots> = csv_read AtRecord [] [] ((rev (g # fs) @ h # gs) # rs) rest"
    by (rule "3.IH") simp
  finally show ?case by simp
qed

lemma read_record:
  "csv_read AtRecord [] [] rs (csv_record rt gs @ rest) = csv_read AtRecord [] [] (gs # rs) rest"
proof (cases gs rule: join_fields.cases)
  case 1
  then show ?thesis by (simp add: csv_record_def)
next
  case (2 g)
  show ?thesis
  proof (cases "g = []")
    case True
    with 2 show ?thesis by (simp add: csv_record_def)
  next
    case False
    have "csv_read AtRecord [] [] rs (csv_field rt g @ LF # rest) = field_done g [] rs LF rest"
      using False by (intro read_field) simp_all
    with 2 False show ?thesis by (simp add: csv_record_def field_done_def)
  qed
next
  case (3 g h hs)
  have "csv_read AtRecord [] [] rs (csv_field rt g @ comma # join_fields (map (csv_field rt) (h # hs)) @ LF # rest)
        = field_done g [] rs comma (join_fields (map (csv_field rt) (h # hs)) @ LF # rest)"
    by (rule read_field) simp_all
  also have "\<dots> = csv_read AtField [] [g] rs (join_fields (map (csv_field rt) (h # hs)) @ LF # rest)"
    by (simp add: field_done_def)
  also have "\<dots> = csv_read AtRecord [] [] ((rev [g] @ h # hs) # rs) rest"
    by (rule read_fields) simp
  finally show ?thesis using 3 by (simp add: csv_record_def)
qed

lemma read_records:
  "csv_read AtRecord [] [] rs (concat (map (csv_record rt) recs)) = Some (rev rs @ recs)"
proof (induction recs arbitrary: rs)
  case Nil
  show ?case by simp
next
  case (Cons gs recs)
  show ?case
    using Cons.IH [of "gs # rs"] by (simp add: read_record)
qed

lemma csv_records_to_csv: "csv_records (to_csv rt with_index d) = Some (csv_rows rt with_index d)"
  using read_records [of "[]"] by (simp add: csv_records_def to_csv_def)

subsection \<open>The export\<close>


lemma rows_of_map:
  "\<forall>c\<in>set cs. length (snd c) = length ls \<Longrightarrow>
   rows_of ls (map (\<lambda>c. (fst c, map f (snd c))) cs)
   = map (\<lambda>r. (fst r, map (\<lambda>p. (fst p, f (snd p))) (snd r))) (rows_of ls cs)"
proof (induction ls arbitrary: cs)
  case Nil
  show ?case by simp
next
  case (Cons l ls)
  have ne: "\<And>c. c \<in> set cs \<Longrightarrow> snd c \<noteq> []"
    using Cons.prems by fastforce
  have tls: "\<forall>c\<in>set (map (\<lambda>c. (fst c, tl (snd c))) cs). length (snd c) = length ls"
    using Cons.prems by auto
  have hds: "map (\<lambda>c. (fst c, hd (snd c))) (map (\<lambda>c. (fst c, map f (snd c))) cs)
             = map (\<lambda>p. (fst p, f (snd p))) (map (\<lambda>c. (fst c, hd (snd c))) cs)"
    using ne by (simp add: hd_map)
  have tl_eq: "map (\<lambda>c. (fst c, tl (snd c))) (map (\<lambda>c. (fst c, map f (snd c))) cs)
             = map (\<lambda>c. (fst c, map f (snd c))) (map (\<lambda>c. (fst c, tl (snd c))) cs)"
    by (simp add: map_tl)
  show ?case
    unfolding rows_of.simps hds tl_eq Cons.IH [OF tls] by simp
qed

lemma csv_rows_by_rows:
  assumes "wf_df d"
  shows "csv_rows rt False d = column_names d # map (row_texts rt) (rows d)"
proof -
  let ?cs = "map (\<lambda>c. (fst c, cells (snd c))) (columns d)"
  have len: "\<forall>c\<in>set ?cs. length (snd c) = length (index d)"
    using assms by (auto simp add: wf_df_def list_all_iff slen_cells nrows_def)
  have "rows_of (index d) (map (\<lambda>c. (fst c, map (cell_text rt) (cells (snd c)))) (columns d))
        = rows_of (index d) (map (\<lambda>c. (fst c, map (cell_text rt) (snd c))) ?cs)"
    by (simp add: comp_def)
  also have "\<dots> = map (\<lambda>r. (fst r, map (\<lambda>p. (fst p, cell_text rt (snd p))) (snd r))) (rows_of (index d) ?cs)"
    by (rule rows_of_map [OF len])
  finally show ?thesis
    by (simp add: csv_rows_def rows_def row_texts_def column_names_def comp_def)
qed

lemma str_nat_digit: "n < 10 \<Longrightarrow> str_nat n = [digit n]"
  by (simp add: str_nat.simps)

lemma str_nat_two: "10 \<le> n \<Longrightarrow> n < 100 \<Longrightarrow> str_nat n = [digit (n div 10), digit n]"
  by (subst str_nat.simps) (simp add: str_nat_digit)

text \<open>
  C9.  For a session with a table and the name of the file it came from, the download
  button offers the bytes of \<^verbatim>\<open>convert_df\<close> under the name \<open>processed_\<close> followed by
  that file name.  Read back as CSV, the bytes are the header record, which is exactly the
  column names in the table's column order with no field for the index, followed by one
  record for each row, in row order, holding the texts of that row's cells.
\<close>
theorem export_is_csv_of_table:
  assumes "df s = Some d" and "wf_df d" and "file_name s = Some name"
  shows "\<exists>data. download_button rt s = Some (data, ''processed_'' @ name)
               \<and> data = convert_df rt d
               \<and> csv_records data = Some (column_names d # map (row_texts rt) (rows d))"
proof -
  have "download_button rt s = Some (convert_df rt d, ''processed_'' @ name)"
    using assms(1,3) by (simp add: download_button_def)
  moreover have "csv_records (convert_df rt d) = Some (column_names d # map (row_texts rt) (rows d))"
    unfolding convert_df_def csv_records_to_csv csv_rows_by_rows [OF assms(2)] ..
  ultimately show ?thesis by blast
qed

theorem export_is_csv_of_table_witness:
  "df example_session = Some example_df \<and> wf_df example_df
   \<and> file_name example_session = Some ''data.csv''
   \<and> download_button example_runtime example_session
       = Some (convert_df example_runtime example_df, ''processed_data.csv'')
   \<and> csv_records (convert_df example_runtime example_df)
       = Some [[''a'', ''b''], [''1'', ''10.0''], [''2'', ''''], [''3'', ''30.0'']]"
proof -
  have a: "df example_session = Some example_df"
    by (simp add: example_session_def)
  have w: "wf_df example_df"
    by (simp add: wf_df_def column_names_def nrows_def example_df_def)
  have n: "file_name example_session = Some ''data.csv''"
    by (simp add: example_session_def)
  have r: "column_names example_df # map (row_texts example_runtime) (rows example_df)
           = [[''a'', ''b''], [''1'', ''10.0''], [''2'', ''''], [''3'', ''30.0'']]"
    by (simp add: column_names_def rows_def example_df_def row_texts_def example_runtime_def
        str_int_def str_nat_digit str_nat_two digit_def)
  from export_is_csv_of_table [OF a w n, of example_runtime] r a w n show ?thesis
    by auto
qed

end
